theory Spec2Isabelle
  imports Main "HOL-Library.Char_ord" "HOL-Library.List_Lexorder" "HOL-Library.Multiset"
    "HOL-Library.Sublist"
begin

section \<open>Data model\<close>

text \<open>
  The detector of \<^verbatim>\<open>orchestration_logic.py\<close> reads two columns of a pandas data frame:
  \<^verbatim>\<open>'Repair Number'\<close> and \<^verbatim>\<open>'Movement Code'\<close>. A frame is modelled by its column
  names and its rows; a row is the pair of the values the two columns hold in it
  (a string and a Python integer). Strings are ordered as Python orders them, code point
  by code point, which is the lexicographic order of \<^typ>\<open>char list\<close>.
\<close>

type_synonym row = "string \<times> int"

record data_frame =
  columns :: "string list"
  rows :: "row list"

text \<open>\<^verbatim>\<open>data.empty\<close>: a frame is empty when one of its axes has length 0.\<close>

definition df_empty :: "data_frame \<Rightarrow> bool" where
  "df_empty data \<longleftrightarrow> rows data = [] \<or> columns data = []"

text \<open>
  The dictionary built for each anomalous repair. \<^verbatim>\<open>"Movement Codes Found"\<close> is a Python
  \<^verbatim>\<open>dict\<close>, which keeps its keys in insertion order: an association list.
\<close>

record anomaly =
  repair_number :: string
  movement_codes_found :: "(int \<times> nat) list"
  missing_codes :: "int list"
  extra_codes :: "int list"
  unexpected_codes :: "int list"
  total_count :: nat

section \<open>The anomaly detector\<close>

text \<open>
  \<^verbatim>\<open>required_codes = {251, 161, 252}\<close> is a set literal. Python does not fix the order
  in which a set is iterated, so the functions below take the iteration order as a
  parameter \<open>rc\<close>; the detector itself runs with the order of the literal.
\<close>

definition required_codes :: "int list" where
  "required_codes = [251, 161, 252]"

text \<open>
  \<^verbatim>\<open>data.groupby('Repair Number')\<close> iterates over the distinct keys in ascending order
  (\<^verbatim>\<open>sort=True\<close> is the default) and gives each key the rows that carry it, in their
  original order; \<^verbatim>\<open>group_df['Movement Code'].tolist()\<close> is the list of their codes.
\<close>

definition group_codes :: "row list \<Rightarrow> string \<Rightarrow> int list" where
  "group_codes rs k = map snd (filter (\<lambda>r. fst r = k) rs)"

definition groupby :: "row list \<Rightarrow> (string \<times> int list) list" where
  "groupby rs = map (\<lambda>k. (k, group_codes rs k)) (sort (remdups (map fst rs)))"

text \<open>\<^verbatim>\<open>Counter(movement_codes)\<close>: one entry per code, in order of first occurrence.\<close>

fun counter_add :: "int \<Rightarrow> (int \<times> nat) list \<Rightarrow> (int \<times> nat) list" where
  "counter_add c [] = [(c, 1)]"
| "counter_add c ((k, n) # kvs) =
     (if k = c then (k, Suc n) # kvs else (k, n) # counter_add c kvs)"

definition Counter :: "int list \<Rightarrow> (int \<times> nat) list" where
  "Counter cs = foldl (\<lambda>acc c. counter_add c acc) [] cs"

text \<open>\<^verbatim>\<open>code_counts.get(code, 0)\<close>.\<close>

definition get_count :: "(int \<times> nat) list \<Rightarrow> int \<Rightarrow> nat" where
  "get_count code_counts code = (case map_of code_counts code of None \<Rightarrow> 0 | Some n \<Rightarrow> n)"

definition is_perfect :: "int list \<Rightarrow> nat \<Rightarrow> (int \<times> nat) list \<Rightarrow> bool" where
  "is_perfect rc n_codes code_counts \<longleftrightarrow>
     n_codes = 3 \<and>
     list_all (\<lambda>code. get_count code_counts code = 1) rc \<and>
     list_all (\<lambda>code. code \<in> set rc) (map fst code_counts)"

text \<open>The body of the loop for one group: nothing for a perfect repair, one record otherwise.\<close>

definition analyse_group :: "int list \<Rightarrow> string \<times> int list \<Rightarrow> anomaly list" where
  "analyse_group rc g =
     (let repair_num = fst g;
          movement_codes = snd g;
          n_codes = length movement_codes;
          code_counts = Counter movement_codes
      in if is_perfect rc n_codes code_counts then []
         else
           [\<lparr> repair_number = repair_num,
              movement_codes_found = code_counts,
              missing_codes = sort (filter (\<lambda>code. get_count code_counts code = 0) rc),
              extra_codes = sort (filter (\<lambda>code. get_count code_counts code > 1) rc),
              unexpected_codes = sort (filter (\<lambda>code. code \<notin> set rc) (map fst code_counts)),
              total_count = n_codes \<rparr>])"

text \<open>The loop over the groups, appending to \<^verbatim>\<open>anomalous_details\<close>.\<close>

fun analyse_groups :: "int list \<Rightarrow> anomaly list \<Rightarrow> (string \<times> int list) list \<Rightarrow> anomaly list" where
  "analyse_groups rc anomalous_details [] = anomalous_details"
| "analyse_groups rc anomalous_details (g # gs) =
     analyse_groups rc (anomalous_details @ analyse_group rc g) gs"

definition has_required_columns :: "data_frame \<Rightarrow> bool" where
  "has_required_columns data \<longleftrightarrow>
     ''Repair Number'' \<in> set (columns data) \<and> ''Movement Code'' \<in> set (columns data)"

definition find_anomalous_repairs_iter :: "int list \<Rightarrow> data_frame \<Rightarrow> anomaly list" where
  "find_anomalous_repairs_iter rc data =
     (if df_empty data \<or> ''Repair Number'' \<notin> set (columns data)
           \<or> ''Movement Code'' \<notin> set (columns data)
      then []
      else analyse_groups rc [] (groupby (rows data)))"

definition find_anomalous_repairs :: "data_frame \<Rightarrow> anomaly list" where
  "find_anomalous_repairs data = find_anomalous_repairs_iter required_codes data"

section \<open>The report writer\<close>

text \<open>\<^verbatim>\<open>str\<close> of a Python integer: decimal digits, with a minus sign when negative.\<close>

fun str_nat :: "nat \<Rightarrow> string" where
  "str_nat n =
     (if n < 10 then [char_of (48 + n)] else str_nat (n div 10) @ [char_of (48 + n mod 10)])"

declare str_nat.simps [simp del]

definition str_int :: "int \<Rightarrow> string" where
  "str_int i = (if i < 0 then CHR ''-'' # str_nat (nat (- i)) else str_nat (nat i))"

text \<open>\<^verbatim>\<open>sep.join(parts)\<close>.\<close>

fun join :: "string \<Rightarrow> string list \<Rightarrow> string" where
  "join sep [] = []"
| "join sep [x] = x"
| "join sep (x # y # ys) = x @ sep @ join sep (y # ys)"

definition newline :: string where
  "newline = [CHR 0x0A]"

text \<open>
  \<^verbatim>\<open>f"{code}({anomaly['Movement Codes Found'].get(code,'?')})"\<close>: the code, then its count
  in the record's dictionary, or a question mark when the dictionary has no such key.
\<close>

definition code_detail :: "(int \<times> nat) list \<Rightarrow> int \<Rightarrow> string" where
  "code_detail found code =
     str_int code @ ''('' @ (case map_of found code of None \<Rightarrow> ''?'' | Some n \<Rightarrow> str_nat n) @ '')''"

text \<open>The list \<^verbatim>\<open>parts\<close> built for one anomaly, one conditional append after the other.\<close>

definition anomaly_parts :: "anomaly \<Rightarrow> string list" where
  "anomaly_parts a =
     (let parts0 = [''Repair: '' @ repair_number a];
          missing = missing_codes a;
          extra = extra_codes a;
          unexpected = unexpected_codes a;
          parts1 = (if missing \<noteq> []
                    then parts0 @ [''Missing: '' @ join '', '' (map str_int missing)]
                    else parts0);
          parts2 = (if extra \<noteq> []
                    then parts1 @ [''Extra Count(s): '' @
                           join '', '' (map (code_detail (movement_codes_found a)) extra)]
                    else parts1);
          parts3 = (if unexpected \<noteq> []
                    then parts2 @ [''Unexpected Code(s): '' @
                           join '', '' (map (code_detail (movement_codes_found a)) unexpected)]
                    else parts2)
      in parts3)"

text \<open>The open file is the text written so far; \<^verbatim>\<open>f.write(s)\<close> appends to it.\<close>

definition f_write :: "string \<Rightarrow> string \<Rightarrow> string" where
  "f_write f s = f @ s"

fun write_anomalies :: "string \<Rightarrow> anomaly list \<Rightarrow> string" where
  "write_anomalies f [] = f"
| "write_anomalies f (a # as) =
     write_anomalies (f_write f (join '', '' (anomaly_parts a) @ newline)) as"

text \<open>
  What the file system does with the call. The body of \<^verbatim>\<open>write_results_to_file\<close> runs
  in a \<^verbatim>\<open>try\<close> whose handler returns an error message. \<^verbatim>\<open>os.makedirs\<close> runs before
  the list is sorted (and only when the path names a directory that does not exist);
  \<^verbatim>\<open>open\<close> and the writes run after it. An outcome carries the text of the exception.
  When \<^verbatim>\<open>open\<close> has succeeded and a later \<^verbatim>\<open>f.write\<close>, the closing of the file or the
  \<^verbatim>\<open>print\<close> of the status message raises, the file exists and holds the characters that
  reached it before the exception: the first \<open>n\<close> characters of the text, all of it when
  \<open>n\<close> is at least its length.
\<close>

datatype io_outcome =
    Io_ok
  | Makedirs_raises string
  | Open_raises string
  | Write_raises nat string

text \<open>
  The result of a call: the caller's list as the call leaves it (\<^verbatim>\<open>list.sort\<close> works
  in place), the complete text of the file when one was written, and the returned
  status message.
\<close>

record write_result =
  anomalies_after :: "anomaly list"
  file_text :: "string option"
  status_message :: string

definition default_output_file_path :: string where
  "default_output_file_path = ''flagged_repairs_detailed.txt''"

definition error_message :: "string \<Rightarrow> string \<Rightarrow> string" where
  "error_message output_file_path e =
     ''Error writing concise results to file '' @ output_file_path @ '': '' @ e"

definition write_report :: "anomaly list \<Rightarrow> string \<Rightarrow> string \<times> string" where
  "write_report detailed_anomalies output_file_path =
     (if detailed_anomalies = [] then
        (f_write [] (''No anomalous repair numbers found based on the detailed criteria.'' @ newline),
         ''No anomalies found. Results summary written to '' @ output_file_path)
      else
        (let f1 = f_write [] (''Concise Anomaly Report:'' @ newline);
             f2 = f_write f1 (concat (replicate 60 ''='') @ newline);
             f3 = write_anomalies f2 detailed_anomalies;
             f4 = f_write f3 (concat (replicate 60 ''='') @ newline);
             f5 = f_write f4 (newline @ ''Total flagged: '' @
                    str_nat (length detailed_anomalies) @ newline)
         in (f5, ''Found '' @ str_nat (length detailed_anomalies) @
                 '' anomalies. Concise report written to '' @ output_file_path)))"

definition write_results_to_file ::
    "io_outcome \<Rightarrow> anomaly list \<Rightarrow> string \<Rightarrow> write_result" where
  "write_results_to_file io detailed_anomalies output_file_path =
     (case io of
        Makedirs_raises e \<Rightarrow>
          \<lparr> anomalies_after = detailed_anomalies, file_text = None,
            status_message = error_message output_file_path e \<rparr>
      | Open_raises e \<Rightarrow>
          \<lparr> anomalies_after = sort_key repair_number detailed_anomalies, file_text = None,
            status_message = error_message output_file_path e \<rparr>
      | Write_raises n e \<Rightarrow>
          (let sorted_anomalies = sort_key repair_number detailed_anomalies;
               (f, status) = write_report sorted_anomalies output_file_path
           in \<lparr> anomalies_after = sorted_anomalies, file_text = Some (take n f),
                status_message = error_message output_file_path e \<rparr>)
      | Io_ok \<Rightarrow>
          (let sorted_anomalies = sort_key repair_number detailed_anomalies;
               (f, status) = write_report sorted_anomalies output_file_path
           in \<lparr> anomalies_after = sorted_anomalies, file_text = Some f,
                status_message = status \<rparr>))"

section \<open>The specification's vocabulary\<close>

text \<open>
  The notions the specification states its requirements with, written from its words and
  independently of the detector: the required code set, the tally of a code within the
  rows of one repair, the number of rows of a repair, and a perfect repair, whose tally is
  exactly \<^verbatim>\<open>{251: 1, 161: 1, 252: 1}\<close>.
\<close>

definition spec_required :: "int set" where
  "spec_required = {251, 161, 252}"

definition spec_tally :: "row list \<Rightarrow> string \<Rightarrow> int \<Rightarrow> nat" where
  "spec_tally rs k c = count_list rs (k, c)"

definition spec_group_size :: "row list \<Rightarrow> string \<Rightarrow> nat" where
  "spec_group_size rs k = length (filter (\<lambda>r. fst r = k) rs)"

definition spec_perfect :: "row list \<Rightarrow> string \<Rightarrow> bool" where
  "spec_perfect rs k \<longleftrightarrow> spec_tally rs k = (\<lambda>c. if c \<in> spec_required then 1 else 0)"

section \<open>Example inputs\<close>

text \<open>The four example repairs of the specification's testable properties, interleaved.\<close>

definition example_frame :: data_frame where
  "example_frame =
     \<lparr> columns = [''Repair Number'', ''Movement Code''],
       rows = [(''R4'', 251), (''R2'', 251), (''R1'', 251), (''R3'', 251), (''R1'', 161),
               (''R3'', 251), (''R2'', 161), (''R4'', 161), (''R1'', 252), (''R3'', 161),
               (''R4'', 252), (''R3'', 252), (''R4'', 999)] \<rparr>"

text \<open>The record the detector builds for repair \<^verbatim>\<open>R3\<close> of the example frame.\<close>

definition example_anomaly :: anomaly where
  "example_anomaly =
     \<lparr> repair_number = ''R3'', movement_codes_found = [(251, 2), (161, 1), (252, 1)],
       missing_codes = [], extra_codes = [251], unexpected_codes = [], total_count = 4 \<rparr>"

text \<open>The records the detector builds for the repairs \<^verbatim>\<open>R2\<close> and \<^verbatim>\<open>R4\<close> of the example frame.\<close>

definition example_missing :: anomaly where
  "example_missing =
     \<lparr> repair_number = ''R2'', movement_codes_found = [(251, 1), (161, 1)],
       missing_codes = [252], extra_codes = [], unexpected_codes = [], total_count = 2 \<rparr>"

definition example_unexpected :: anomaly where
  "example_unexpected =
     \<lparr> repair_number = ''R4'', movement_codes_found = [(251, 1), (161, 1), (252, 1), (999, 1)],
       missing_codes = [], extra_codes = [], unexpected_codes = [999], total_count = 4 \<rparr>"

text \<open>The three records in descending order of repair number: an unsorted input of the writer.\<close>

definition example_anomalies :: "anomaly list" where
  "example_anomalies = [example_unexpected, example_anomaly, example_missing]"

text \<open>The example frame with its rows in the opposite order.\<close>

definition example_frame_reversed :: data_frame where
  "example_frame_reversed = example_frame \<lparr> rows := rev (rows example_frame) \<rparr>"

section \<open>Records as Python compares them\<close>

text \<open>
  Two Python dictionaries are equal when they hold the same keys with the same values, in
  whatever order the keys were inserted. The view of a record replaces the association list
  of \<^verbatim>\<open>"Movement Codes Found"\<close> by the finite map it denotes, so that two records have the
  same view exactly when Python's \<^verbatim>\<open>==\<close> holds of them.
\<close>

definition anomaly_view ::
    "anomaly \<Rightarrow> string \<times> (int \<rightharpoonup> nat) \<times> int list \<times> int list \<times> int list \<times> nat" where
  "anomaly_view a =
     (repair_number a, map_of (movement_codes_found a), missing_codes a, extra_codes a,
      unexpected_codes a, total_count a)"

section \<open>The report as the specification lays it out\<close>

text \<open>
  One line per anomaly: the clause \<^verbatim>\<open>Repair: <id>\<close> always, then the clauses
  \<^verbatim>\<open>Missing: <codes>\<close>, \<^verbatim>\<open>Extra Count(s): <code>(<tally>)\<close> and
  \<^verbatim>\<open>Unexpected Code(s): <code>(<tally>)\<close>, each only when its list is not empty,
  in this order and joined by a comma and a space.
\<close>

definition spec_line :: "anomaly \<Rightarrow> string" where
  "spec_line a =
     join '', ''
       ([''Repair: '' @ repair_number a] @
        (if missing_codes a = [] then []
         else [''Missing: '' @ join '', '' (map str_int (missing_codes a))]) @
        (if extra_codes a = [] then []
         else [''Extra Count(s): '' @
                 join '', '' (map (code_detail (movement_codes_found a)) (extra_codes a))]) @
        (if unexpected_codes a = [] then []
         else [''Unexpected Code(s): '' @
                 join '', '' (map (code_detail (movement_codes_found a)) (unexpected_codes a))]))"

text \<open>
  The same line with the repair number in front: the clause \<^verbatim>\<open>Repair: <id>\<close>, then every
  clause that is present, each preceded by the separator.
\<close>

definition spec_clauses :: "anomaly \<Rightarrow> string list" where
  "spec_clauses a =
     (if missing_codes a = [] then []
      else [''Missing: '' @ join '', '' (map str_int (missing_codes a))]) @
     (if extra_codes a = [] then []
      else [''Extra Count(s): '' @
              join '', '' (map (code_detail (movement_codes_found a)) (extra_codes a))]) @
     (if unexpected_codes a = [] then []
      else [''Unexpected Code(s): '' @
              join '', '' (map (code_detail (movement_codes_found a)) (unexpected_codes a))])"

definition spec_line_rest :: "anomaly \<Rightarrow> string" where
  "spec_line_rest a = concat (map (\<lambda>clause. '', '' @ clause) (spec_clauses a))"

text \<open>
  The report for a sequence of anomalies: a header, a rule of 60 characters \<^verbatim>\<open>=\<close>, one line
  per anomaly, the rule again, an empty line and the footer with the number of anomalies.
\<close>

definition spec_report :: "anomaly list \<Rightarrow> string" where
  "spec_report ys =
     ''Concise Anomaly Report:'' @ newline @
     replicate 60 CHR ''='' @ newline @
     concat (map (\<lambda>a. spec_line a @ newline) ys) @
     replicate 60 CHR ''='' @ newline @
     newline @ ''Total flagged: '' @ str_nat (length ys) @ newline"

section \<open>Properties of the counter and of the grouping\<close>

lemma get_count_counter_add:
  "get_count (counter_add c kvs) x = (if x = c then Suc (get_count kvs x) else get_count kvs x)"
  by (induction c kvs rule: counter_add.induct) (auto simp: get_count_def)

lemma keys_counter_add:
  "set (map fst (counter_add c kvs)) = insert c (set (map fst kvs))"
  by (induction c kvs rule: counter_add.induct) auto

lemma distinct_counter_add:
  "distinct (map fst kvs) \<Longrightarrow> distinct (map fst (counter_add c kvs))"
  by (induction c kvs rule: counter_add.induct) (auto simp: keys_counter_add simp flip: set_map)

lemma positive_counter_add:
  "\<forall>kv\<in>set kvs. 0 < snd kv \<Longrightarrow> \<forall>kv\<in>set (counter_add c kvs). 0 < snd kv"
  by (induction c kvs rule: counter_add.induct) auto

lemma sum_counter_add:
  "sum_list (map snd (counter_add c kvs)) = Suc (sum_list (map snd kvs))"
  by (induction c kvs rule: counter_add.induct) auto

lemma get_count_foldl:
  "get_count (foldl (\<lambda>acc c. counter_add c acc) kvs cs) x = get_count kvs x + count_list cs x"
  by (induction cs arbitrary: kvs) (auto simp: get_count_counter_add)

lemma keys_foldl:
  "set (map fst (foldl (\<lambda>acc c. counter_add c acc) kvs cs)) = set (map fst kvs) \<union> set cs"
  by (induction cs arbitrary: kvs) (auto simp: keys_counter_add simp del: set_map)

lemma distinct_foldl:
  "distinct (map fst kvs) \<Longrightarrow> distinct (map fst (foldl (\<lambda>acc c. counter_add c acc) kvs cs))"
  by (induction cs arbitrary: kvs) (auto simp: distinct_counter_add)

lemma positive_foldl:
  "\<forall>kv\<in>set kvs. 0 < snd kv \<Longrightarrow>
   \<forall>kv\<in>set (foldl (\<lambda>acc c. counter_add c acc) kvs cs). 0 < snd kv"
proof (induction cs arbitrary: kvs)
  case Nil
  then show ?case by simp
next
  case (Cons c cs)
  have "\<forall>kv\<in>set (counter_add c kvs). 0 < snd kv"
    using Cons.prems by (rule positive_counter_add)
  then show ?case using Cons.IH by simp
qed

lemma sum_foldl:
  "sum_list (map snd (foldl (\<lambda>acc c. counter_add c acc) kvs cs)) =
   sum_list (map snd kvs) + length cs"
  by (induction cs arbitrary: kvs) (auto simp: sum_counter_add)

lemma get_count_Counter: "get_count (Counter cs) x = count_list cs x"
  using get_count_foldl [of "[]" cs x] by (simp add: Counter_def get_count_def)

lemma keys_Counter: "set (map fst (Counter cs)) = set cs"
  using keys_foldl [of "[]" cs] by (simp add: Counter_def)

lemma distinct_Counter: "distinct (map fst (Counter cs))"
  by (simp add: Counter_def distinct_foldl)

lemma sum_Counter: "sum_list (map snd (Counter cs)) = length cs"
  by (simp add: Counter_def sum_foldl)

lemma map_of_Counter:
  "map_of (Counter cs) x = (if x \<in> set cs then Some (count_list cs x) else None)"
proof (cases "x \<in> set cs")
  case True
  then have "x \<in> set (map fst (Counter cs))" using keys_Counter [of cs] by blast
  then obtain n where n: "map_of (Counter cs) x = Some n"
    by (metis map_of_eq_None_iff not_Some_eq set_map)
  then have "get_count (Counter cs) x = n" by (simp add: get_count_def)
  with n True show ?thesis by (simp add: get_count_Counter)
next
  case False
  then have "x \<notin> set (map fst (Counter cs))" using keys_Counter [of cs] by blast
  then have "map_of (Counter cs) x = None"
    by (metis map_of_eq_None_iff set_map)
  with False show ?thesis by (simp only: if_False)
qed

lemma analyse_groups_concat:
  "analyse_groups rc acc gs = acc @ concat (map (analyse_group rc) gs)"
  by (induction gs arbitrary: acc) auto

lemma count_group_codes: "count_list (group_codes rs k) c = count_list rs (k, c)"
  unfolding group_codes_def by (induction rs) auto

lemma length_group_codes: "length (group_codes rs k) = length (filter (\<lambda>r. fst r = k) rs)"
  by (simp add: group_codes_def)

lemma set_group_codes: "set (group_codes rs k) = {c. (k, c) \<in> set rs}"
  unfolding group_codes_def by force

section \<open>Properties of the detector\<close>

lemma count_list_pos: "0 < count_list xs x \<longleftrightarrow> x \<in> set xs"
  using count_list_0_iff [of xs x] by auto

lemma set_required_codes: "set required_codes = spec_required"
  by (auto simp: required_codes_def spec_required_def)

lemma is_perfect_counts:
  "is_perfect rc (length cs) (Counter cs) \<longleftrightarrow>
     length cs = 3 \<and> (\<forall>c\<in>set rc. count_list cs c = 1) \<and> set cs \<subseteq> set rc"
proof -
  have "list_all (\<lambda>code. code \<in> set rc) (map fst (Counter cs)) \<longleftrightarrow> set cs \<subseteq> set rc"
    using keys_Counter [of cs] unfolding list_all_iff by blast
  then show ?thesis
    by (simp add: is_perfect_def get_count_Counter list_all_iff)
qed

lemma length_eq_sum_counts:
  assumes "set cs \<subseteq> {251, 161, 252::int}"
  shows "length cs = count_list cs 251 + count_list cs 161 + count_list cs 252"
proof -
  have "sum (count_list cs) {251, 161, 252::int} = length cs"
    using assms by (intro sum_count_set) auto
  then show ?thesis by simp
qed

lemma perfect_codes_iff:
  "is_perfect required_codes (length cs) (Counter cs) \<longleftrightarrow>
     (\<forall>c. count_list cs c = (if c \<in> spec_required then 1 else 0))"
  (is "?L \<longleftrightarrow> ?R")
proof
  assume ?L
  then have one: "\<forall>c\<in>spec_required. count_list cs c = 1" and sub: "set cs \<subseteq> spec_required"
    by (simp_all add: is_perfect_counts set_required_codes)
  show ?R
  proof
    fix c
    show "count_list cs c = (if c \<in> spec_required then 1 else 0)"
    proof (cases "c \<in> spec_required")
      case True
      with one show ?thesis by simp
    next
      case False
      with sub have "c \<notin> set cs" by blast
      then have "count_list cs c = 0" by (simp add: count_list_0_iff)
      with False show ?thesis by simp
    qed
  qed
next
  assume r: ?R
  have sub: "set cs \<subseteq> spec_required"
  proof
    fix c assume "c \<in> set cs"
    then have "count_list cs c \<noteq> 0" by (simp add: count_list_0_iff)
    with r show "c \<in> spec_required" by (metis (full_types))
  qed
  have one: "\<forall>c\<in>spec_required. count_list cs c = 1" using r by simp
  have "length cs = count_list cs 251 + count_list cs 161 + count_list cs 252"
    using sub by (intro length_eq_sum_counts) (simp add: spec_required_def)
  also have "\<dots> = 3" using one by (simp add: spec_required_def)
  finally have len: "length cs = 3" .
  show ?L unfolding is_perfect_counts set_required_codes using len one sub by blast
qed

lemma perfect_group_iff:
  "is_perfect required_codes (length (group_codes rs k)) (Counter (group_codes rs k))
     \<longleftrightarrow> spec_perfect rs k"
  by (simp add: perfect_codes_iff spec_perfect_def spec_tally_def count_group_codes fun_eq_iff)

lemma detect_valid:
  "has_required_columns data \<Longrightarrow>
   find_anomalous_repairs_iter rc data =
     concat (map (analyse_group rc) (groupby (rows data)))"
  by (auto simp: find_anomalous_repairs_iter_def has_required_columns_def df_empty_def
      analyse_groups_concat groupby_def)

lemma detect_invalid:
  "\<not> has_required_columns data \<Longrightarrow> find_anomalous_repairs_iter rc data = []"
  by (auto simp: find_anomalous_repairs_iter_def has_required_columns_def)

lemma analyse_group_cases:
  "analyse_group rc (k, cs) =
     (if is_perfect rc (length cs) (Counter cs) then []
      else [\<lparr> repair_number = k,
              movement_codes_found = Counter cs,
              missing_codes = sort (filter (\<lambda>code. count_list cs code = 0) rc),
              extra_codes = sort (filter (\<lambda>code. count_list cs code > 1) rc),
              unexpected_codes = sort (filter (\<lambda>code. code \<notin> set rc) (map fst (Counter cs))),
              total_count = length cs \<rparr>])"
  by (simp add: analyse_group_def Let_def get_count_Counter)

lemma analyse_group_id:
  "a \<in> set (analyse_group rc (k, cs)) \<Longrightarrow> repair_number a = k"
  by (auto simp: analyse_group_cases split: if_splits)

lemma filter_id_concat:
  "distinct ks \<Longrightarrow>
   filter (\<lambda>a. repair_number a = k) (concat (map (\<lambda>k'. analyse_group rc (k', f k')) ks)) =
     (if k \<in> set ks then analyse_group rc (k, f k) else [])"
proof (induction ks)
  case Nil
  then show ?case by simp
next
  case (Cons x ks)
  have same: "filter (\<lambda>a. repair_number a = k) (analyse_group rc (x, f x)) =
      (if x = k then analyse_group rc (x, f x) else [])"
    by (auto simp: analyse_group_cases)
  show ?case using Cons by (auto simp: same)
qed

lemma keys_distinct: "distinct (sort (remdups (map fst rs)))"
  by simp

lemma keys_set: "set (sort (remdups (map fst rs))) = fst ` set rs"
  by simp

lemma records_of_id:
  assumes "has_required_columns data"
  shows "filter (\<lambda>a. repair_number a = k) (find_anomalous_repairs_iter rc data) =
     (if k \<in> fst ` set (rows data) then analyse_group rc (k, group_codes (rows data) k) else [])"
proof -
  have "filter (\<lambda>a. repair_number a = k) (find_anomalous_repairs_iter rc data) =
      filter (\<lambda>a. repair_number a = k)
        (concat (map (\<lambda>k'. analyse_group rc (k', group_codes (rows data) k'))
           (sort (remdups (map fst (rows data))))))"
    using assms by (simp add: detect_valid groupby_def comp_def)
  also have "\<dots> = (if k \<in> set (sort (remdups (map fst (rows data))))
      then analyse_group rc (k, group_codes (rows data) k) else [])"
    by (rule filter_id_concat) (rule keys_distinct)
  finally show ?thesis by (simp only: keys_set)
qed

lemma sort_distinct_strict: "distinct xs \<Longrightarrow> sorted_wrt (<) (sort (xs::int list))"
  by (simp add: strict_sorted_iff)

lemma record_origin:
  assumes "a \<in> set (find_anomalous_repairs_iter rc data)"
  shows "repair_number a \<in> fst ` set (rows data) \<and>
         analyse_group rc (repair_number a, group_codes (rows data) (repair_number a)) = [a]"
proof -
  have v: "has_required_columns data"
  proof (rule ccontr)
    assume "\<not> has_required_columns data"
    then have "find_anomalous_repairs_iter rc data = []" by (rule detect_invalid)
    with assms show False by simp
  qed
  let ?k = "repair_number a"
  have "a \<in> set (filter (\<lambda>x. repair_number x = ?k) (find_anomalous_repairs_iter rc data))"
    using assms by simp
  then have m: "a \<in> set (if ?k \<in> fst ` set (rows data)
      then analyse_group rc (?k, group_codes (rows data) ?k) else [])"
    by (simp only: records_of_id [OF v])
  then have k: "?k \<in> fst ` set (rows data)" by (auto split: if_splits)
  with m have "a \<in> set (analyse_group rc (?k, group_codes (rows data) ?k))" by simp
  then have "analyse_group rc (?k, group_codes (rows data) ?k) = [a]"
    by (auto simp: analyse_group_cases split: if_splits)
  with k show ?thesis by simp
qed

lemma record_fields:
  assumes "a \<in> set (find_anomalous_repairs_iter rc data)"
  defines "cs \<equiv> group_codes (rows data) (repair_number a)"
  shows "movement_codes_found a = Counter cs"
    and "missing_codes a = sort (filter (\<lambda>code. count_list cs code = 0) rc)"
    and "extra_codes a = sort (filter (\<lambda>code. count_list cs code > 1) rc)"
    and "unexpected_codes a = sort (filter (\<lambda>code. code \<notin> set rc) (map fst (Counter cs)))"
    and "total_count a = length cs"
    and "cs \<noteq> []"
    and "\<not> is_perfect rc (length cs) (Counter cs)"
proof -
  from record_origin [OF assms(1)]
  have k: "repair_number a \<in> fst ` set (rows data)"
    and ag: "analyse_group rc (repair_number a, cs) = [a]"
    by (simp_all add: cs_def)
  from ag show np: "\<not> is_perfect rc (length cs) (Counter cs)"
    by (auto simp: analyse_group_cases split: if_splits)
  from ag np have a: "a = \<lparr> repair_number = repair_number a,
              movement_codes_found = Counter cs,
              missing_codes = sort (filter (\<lambda>code. count_list cs code = 0) rc),
              extra_codes = sort (filter (\<lambda>code. count_list cs code > 1) rc),
              unexpected_codes = sort (filter (\<lambda>code. code \<notin> set rc) (map fst (Counter cs))),
              total_count = length cs \<rparr>"
    by (simp add: analyse_group_cases)
  show "movement_codes_found a = Counter cs" by (subst a) simp
  show "missing_codes a = sort (filter (\<lambda>code. count_list cs code = 0) rc)" by (subst a) simp
  show "extra_codes a = sort (filter (\<lambda>code. count_list cs code > 1) rc)" by (subst a) simp
  show "unexpected_codes a = sort (filter (\<lambda>code. code \<notin> set rc) (map fst (Counter cs)))"
    by (subst a) simp
  show "total_count a = length cs" by (subst a) simp
  from k obtain c where "(repair_number a, c) \<in> set (rows data)" by force
  then have "c \<in> set cs" by (simp add: cs_def set_group_codes)
  then show "cs \<noteq> []" by auto
qed

lemma distinct_required_codes: "distinct required_codes"
  by (simp add: required_codes_def)

lemma example_detect:
  "find_anomalous_repairs example_frame =
     [\<lparr> repair_number = ''R2'', movement_codes_found = [(251, 1), (161, 1)],
        missing_codes = [252], extra_codes = [], unexpected_codes = [], total_count = 2 \<rparr>,
      example_anomaly,
      \<lparr> repair_number = ''R4'', movement_codes_found = [(251, 1), (161, 1), (252, 1), (999, 1)],
        missing_codes = [], extra_codes = [], unexpected_codes = [999], total_count = 4 \<rparr>]"
  by code_simp

section \<open>Reordering the rows and the required codes\<close>

lemma sort_cong_mset: "mset xs = mset ys \<Longrightarrow> sort xs = sort (ys :: int list)"
  by (rule properties_for_sort) simp_all

lemma sort_cong_distinct:
  "distinct xs \<Longrightarrow> distinct ys \<Longrightarrow> set xs = set ys \<Longrightarrow> sort xs = sort (ys :: int list)"
  by (rule sort_cong_mset) (simp add: set_eq_iff_mset_eq_distinct)

lemma count_list_cong_mset: "mset xs = mset ys \<Longrightarrow> count_list xs c = count_list ys c"
  by (metis count_mset)

lemma view_group_cong:
  assumes "mset cs' = mset cs"
  shows "map anomaly_view (analyse_group rc (k, cs')) = map anomaly_view (analyse_group rc (k, cs))"
proof -
  have cnt: "\<And>c. count_list cs' c = count_list cs c"
    using assms by (rule count_list_cong_mset)
  have len: "length cs' = length cs" using assms by (rule mset_eq_length)
  have st: "set cs' = set cs" using assms by (rule mset_eq_setD)
  have p: "is_perfect rc (length cs') (Counter cs') \<longleftrightarrow> is_perfect rc (length cs) (Counter cs)"
    unfolding is_perfect_counts by (simp only: cnt len st)
  have m: "map_of (Counter cs') = map_of (Counter cs)"
    by (rule ext) (simp add: map_of_Counter cnt st)
  have u: "sort (filter (\<lambda>code. code \<notin> set rc) (map fst (Counter cs'))) =
      sort (filter (\<lambda>code. code \<notin> set rc) (map fst (Counter cs)))"
    by (rule sort_cong_distinct) (simp_all add: distinct_Counter keys_Counter st del: set_map)
  show ?thesis
    unfolding analyse_group_cases p
    by (simp add: m u cnt len anomaly_view_def)
qed

lemma group_codes_cong:
  assumes "mset rs' = mset rs"
  shows "mset (group_codes rs' k) = mset (group_codes rs k)"
proof -
  have "mset (group_codes rs' k) = image_mset snd (filter_mset (\<lambda>r. fst r = k) (mset rs'))"
    by (simp add: group_codes_def)
  also have "\<dots> = image_mset snd (filter_mset (\<lambda>r. fst r = k) (mset rs))"
    by (simp only: assms)
  also have "\<dots> = mset (group_codes rs k)"
    by (simp add: group_codes_def)
  finally show ?thesis .
qed

lemma keys_cong: "mset rs' = mset rs \<Longrightarrow>
   sort (remdups (map fst rs')) = sort (remdups (map fst (rs :: row list)))"
proof -
  assume "mset rs' = mset rs"
  then have "set rs' = set rs" by (rule mset_eq_setD)
  then have "set (remdups (map fst rs')) = set (remdups (map fst rs))" by simp
  then have "mset (remdups (map fst rs')) = mset (remdups (map fst rs))"
    by (simp add: set_eq_iff_mset_eq_distinct [symmetric])
  then show ?thesis by (intro properties_for_sort) simp_all
qed

lemma map_view_concat:
  "map anomaly_view (concat (map (\<lambda>k. analyse_group rc (k, f k)) ks)) =
   concat (map (\<lambda>k. map anomaly_view (analyse_group rc (k, f k))) ks)"
  by (induction ks) simp_all

lemma detect_view_cong:
  assumes "mset (rows data') = mset (rows data)" and "columns data' = columns data"
  shows "map anomaly_view (find_anomalous_repairs_iter rc data') =
         map anomaly_view (find_anomalous_repairs_iter rc data)"
proof (cases "has_required_columns data")
  case False
  moreover from False assms(2) have "\<not> has_required_columns data'"
    by (simp add: has_required_columns_def)
  ultimately show ?thesis by (simp add: detect_invalid)
next
  case True
  moreover from True assms(2) have v': "has_required_columns data'"
    by (simp add: has_required_columns_def)
  have g: "\<And>k. map anomaly_view (analyse_group rc (k, group_codes (rows data') k)) =
      map anomaly_view (analyse_group rc (k, group_codes (rows data) k))"
    by (rule view_group_cong) (rule group_codes_cong [OF assms(1)])
  show ?thesis
    by (simp add: detect_valid True v' groupby_def comp_def map_view_concat g
        keys_cong [OF assms(1)])
qed

lemma analyse_group_order:
  assumes "mset rc' = mset rc"
  shows "analyse_group rc' g = analyse_group rc g"
proof -
  obtain k cs where g: "g = (k, cs)" by (cases g)
  have st: "set rc' = set rc" using assms by (rule mset_eq_setD)
  have p: "is_perfect rc' (length cs) (Counter cs) \<longleftrightarrow> is_perfect rc (length cs) (Counter cs)"
    by (simp only: is_perfect_counts st)
  have f: "\<And>P. sort (filter P rc') = sort (filter P rc)"
    by (rule sort_cong_mset) (simp add: assms)
  show ?thesis
    unfolding g analyse_group_cases p by (simp add: f st)
qed

lemma detect_order:
  assumes "mset rc' = mset rc"
  shows "find_anomalous_repairs_iter rc' data = find_anomalous_repairs_iter rc data"
proof -
  have "analyse_group rc' = analyse_group rc"
    by (rule ext) (rule analyse_group_order [OF assms])
  then show ?thesis
    by (simp add: find_anomalous_repairs_iter_def analyse_groups_concat)
qed

section \<open>The text the writer produces\<close>

lemma write_anomalies_concat:
  "write_anomalies f ys = f @ concat (map (\<lambda>a. join '', '' (anomaly_parts a) @ newline) ys)"
  by (induction ys arbitrary: f) (simp_all add: f_write_def)

lemma anomaly_parts_line: "join '', '' (anomaly_parts a) = spec_line a"
  by (simp add: anomaly_parts_def spec_line_def Let_def)

lemma concat_replicate_single: "concat (replicate n [x]) = replicate n x"
  by (induction n) simp_all

lemma rule_line: "concat (replicate 60 ''='') = replicate 60 CHR ''=''"
  by (rule concat_replicate_single)

lemma write_report_nonempty:
  "ys \<noteq> [] \<Longrightarrow> write_report ys path =
     (spec_report ys,
      ''Found '' @ str_nat (length ys) @ '' anomalies. Concise report written to '' @ path)"
  by (simp add: write_report_def Let_def f_write_def write_anomalies_concat anomaly_parts_line
      rule_line spec_report_def)

lemma write_report_empty:
  "write_report [] path =
     (''No anomalous repair numbers found based on the detailed criteria.'' @ newline,
      ''No anomalies found. Results summary written to '' @ path)"
  by (simp add: write_report_def f_write_def)

lemma sort_key_empty_iff: "sort_key f xs = [] \<longleftrightarrow> xs = []"
  by (metis length_sort list.size(3) length_0_conv)

lemma write_ok:
  "write_results_to_file Io_ok xs path =
     \<lparr> anomalies_after = sort_key repair_number xs,
       file_text = Some (fst (write_report (sort_key repair_number xs) path)),
       status_message = snd (write_report (sort_key repair_number xs) path) \<rparr>"
  by (simp add: write_results_to_file_def Let_def split: prod.split)

lemma write_raises:
  "write_results_to_file (Write_raises n e) xs path =
     \<lparr> anomalies_after = sort_key repair_number xs,
       file_text = Some (take n (fst (write_report (sort_key repair_number xs) path))),
       status_message = error_message path e \<rparr>"
  by (simp add: write_results_to_file_def Let_def split: prod.split)

lemma map_sort_key: "map f (sort_key f xs) = sort (map f xs)"
  by (rule properties_for_sort [symmetric]) simp_all

lemma sorted_ids_cong:
  assumes "mset xs' = mset xs"
  shows "map repair_number (sort_key repair_number xs') =
         map repair_number (sort_key repair_number xs)"
proof -
  have "mset (map repair_number xs') = mset (map repair_number xs)"
    using assms by (metis mset_map)
  then have "sort (map repair_number xs') = sort (map repair_number xs)"
    by (intro properties_for_sort) simp_all
  then show ?thesis by (simp only: map_sort_key)
qed

lemma write_twice:
  "write_results_to_file io (anomalies_after (write_results_to_file io xs path)) path =
   write_results_to_file io xs path"
proof -
  have "sort_key repair_number (sort_key repair_number xs) = sort_key repair_number xs"
    by (rule sort_key_id_if_sorted) simp
  then show ?thesis
    by (cases io) (simp_all add: write_results_to_file_def Let_def split: prod.splits)
qed

lemma example_sorted:
  "sort_key repair_number example_anomalies = [example_missing, example_anomaly, example_unexpected]"
  by code_simp

lemma join_Cons: "join sep (x # xs) = x @ concat (map (\<lambda>y. sep @ y) xs)"
  by (induction xs arbitrary: x) simp_all

lemma spec_line_repair: "spec_line a = ''Repair: '' @ repair_number a @ spec_line_rest a"
  by (simp add: spec_line_def spec_line_rest_def spec_clauses_def join_Cons del: join.simps)

lemma spec_report_repair:
  "spec_report ys =
     ''Concise Anomaly Report:'' @ newline @
     replicate 60 CHR ''='' @ newline @
     concat (map (\<lambda>a. ''Repair: '' @ repair_number a @ spec_line_rest a @ newline) ys) @
     replicate 60 CHR ''='' @ newline @
     newline @ ''Total flagged: '' @ str_nat (length ys) @ newline"
  by (simp add: spec_report_def spec_line_repair)

section \<open>Claims about the detector\<close>

text \<open>
  C1. For a table that has both required columns, the detector emits exactly one record
  for each repair number of the table whose tally is not exactly
  \<^verbatim>\<open>{251: 1, 161: 1, 252: 1}\<close>, and none for any other repair number; a tally is
  that mapping exactly when the repair has 3 rows, every required code has tally 1 and no
  other code occurs.
\<close>

theorem C1_one_record_per_imperfect_repair:
  assumes "has_required_columns data"
  shows "length (filter (\<lambda>a. repair_number a = k) (find_anomalous_repairs data)) =
           (if k \<in> fst ` set (rows data) \<and> \<not> spec_perfect (rows data) k then 1 else 0)
         \<and> (spec_perfect (rows data) k \<longleftrightarrow>
              spec_group_size (rows data) k = 3 \<and>
              (\<forall>c\<in>spec_required. spec_tally (rows data) k c = 1) \<and>
              (\<forall>c. 0 < spec_tally (rows data) k c \<longrightarrow> c \<in> spec_required))"
proof
  have "length (analyse_group required_codes (k, group_codes (rows data) k)) =
      (if spec_perfect (rows data) k then 0 else 1)"
    by (simp add: analyse_group_cases perfect_group_iff)
  then show "length (filter (\<lambda>a. repair_number a = k) (find_anomalous_repairs data)) =
           (if k \<in> fst ` set (rows data) \<and> \<not> spec_perfect (rows data) k then 1 else 0)"
    using assms by (auto simp: find_anomalous_repairs_def records_of_id split: if_splits)
next
  let ?cs = "group_codes (rows data) k"
  have "spec_perfect (rows data) k \<longleftrightarrow> is_perfect required_codes (length ?cs) (Counter ?cs)"
    by (simp add: perfect_group_iff)
  also have "\<dots> \<longleftrightarrow> length ?cs = 3 \<and> (\<forall>c\<in>spec_required. count_list ?cs c = 1)
      \<and> set ?cs \<subseteq> spec_required"
    by (simp add: is_perfect_counts set_required_codes)
  also have "set ?cs \<subseteq> spec_required \<longleftrightarrow> (\<forall>c. 0 < count_list ?cs c \<longrightarrow> c \<in> spec_required)"
    by (auto simp: count_list_pos)
  finally show "spec_perfect (rows data) k \<longleftrightarrow>
              spec_group_size (rows data) k = 3 \<and>
              (\<forall>c\<in>spec_required. spec_tally (rows data) k c = 1) \<and>
              (\<forall>c. 0 < spec_tally (rows data) k c \<longrightarrow> c \<in> spec_required)"
    by (simp add: spec_tally_def spec_group_size_def count_group_codes length_group_codes)
qed

theorem C1_witness:
  "has_required_columns example_frame \<and>
   length (filter (\<lambda>a. repair_number a = ''R2'') (find_anomalous_repairs example_frame)) = 1 \<and>
   ''R2'' \<in> fst ` set (rows example_frame) \<and> \<not> spec_perfect (rows example_frame) ''R2'' \<and>
   length (filter (\<lambda>a. repair_number a = ''R1'') (find_anomalous_repairs example_frame)) = 0 \<and>
   spec_perfect (rows example_frame) ''R1''"
proof -
  have h: "has_required_columns example_frame"
    by (simp add: has_required_columns_def example_frame_def)
  have r2: "length (filter (\<lambda>a. repair_number a = ''R2'')
      (find_anomalous_repairs example_frame)) = 1"
    by code_simp
  have r1: "length (filter (\<lambda>a. repair_number a = ''R1'')
      (find_anomalous_repairs example_frame)) = 0"
    by code_simp
  have in1: "''R1'' \<in> fst ` set (rows example_frame)"
    by (simp add: example_frame_def)
  note t2 = C1_one_record_per_imperfect_repair [OF h, of "''R2''", THEN conjunct1]
  note t1 = C1_one_record_per_imperfect_repair [OF h, of "''R1''", THEN conjunct1]
  have a2: "''R2'' \<in> fst ` set (rows example_frame) \<and> \<not> spec_perfect (rows example_frame) ''R2''"
  proof (rule ccontr)
    assume "\<not> ?thesis"
    then have "length (filter (\<lambda>a. repair_number a = ''R2'')
      (find_anomalous_repairs example_frame)) = 0"
      by (simp only: t2 if_False)
    then show False by (simp only: r2)
  qed
  have a1: "spec_perfect (rows example_frame) ''R1''"
  proof (rule ccontr)
    assume "\<not> ?thesis"
    with in1 have "length (filter (\<lambda>a. repair_number a = ''R1'')
      (find_anomalous_repairs example_frame)) = 1"
      by (simp only: t1 if_True simp_thms)
    then show False by (simp only: r1)
  qed
  from h r2 a2 r1 a1 show ?thesis by blast
qed

text \<open>
  C2. For every record the detector emits: the missing codes are the required codes of
  tally 0, the extra codes the required codes of tally above 1, the unexpected codes the
  codes that occur for the repair and are not required, each list strictly ascending; the
  dictionary of codes found maps every code that occurs to its tally and has no other key;
  the total count is the sum of the tallies, which is the number of rows of the repair.
\<close>

theorem C2_deviation_fields:
  assumes "a \<in> set (find_anomalous_repairs data)"
  shows "sorted_wrt (<) (missing_codes a) \<and>
         set (missing_codes a) =
           {c \<in> spec_required. spec_tally (rows data) (repair_number a) c = 0} \<and>
         sorted_wrt (<) (extra_codes a) \<and>
         set (extra_codes a) =
           {c \<in> spec_required. 1 < spec_tally (rows data) (repair_number a) c} \<and>
         sorted_wrt (<) (unexpected_codes a) \<and>
         set (unexpected_codes a) =
           {c. 0 < spec_tally (rows data) (repair_number a) c \<and> c \<notin> spec_required} \<and>
         distinct (map fst (movement_codes_found a)) \<and>
         (\<forall>c. map_of (movement_codes_found a) c =
            (if 0 < spec_tally (rows data) (repair_number a) c
             then Some (spec_tally (rows data) (repair_number a) c) else None)) \<and>
         total_count a = sum_list (map snd (movement_codes_found a)) \<and>
         total_count a = spec_group_size (rows data) (repair_number a)"
proof -
  let ?cs = "group_codes (rows data) (repair_number a)"
  note a = assms [unfolded find_anomalous_repairs_def]
  have tally: "\<And>c. count_list ?cs c = spec_tally (rows data) (repair_number a) c"
    by (simp add: spec_tally_def count_group_codes)
  have m: "missing_codes a =
      sort (filter (\<lambda>c. spec_tally (rows data) (repair_number a) c = 0) required_codes)"
    using record_fields(2) [OF a] by (simp add: tally)
  have e: "extra_codes a =
      sort (filter (\<lambda>c. 1 < spec_tally (rows data) (repair_number a) c) required_codes)"
    using record_fields(3) [OF a] by (simp add: tally)
  have u: "unexpected_codes a =
      sort (filter (\<lambda>c. c \<notin> spec_required) (map fst (Counter ?cs)))"
    using record_fields(4) [OF a] by (simp add: set_required_codes)
  have f: "movement_codes_found a = Counter ?cs"
    by (rule record_fields(1) [OF a])
  have t: "total_count a = length ?cs"
    by (rule record_fields(5) [OF a])
  have 1: "sorted_wrt (<) (missing_codes a)"
    unfolding m by (rule sort_distinct_strict) (simp add: distinct_required_codes)
  have 2: "set (missing_codes a) =
      {c \<in> spec_required. spec_tally (rows data) (repair_number a) c = 0}"
    unfolding m by (simp add: set_required_codes)
  have 3: "sorted_wrt (<) (extra_codes a)"
    unfolding e by (rule sort_distinct_strict) (simp add: distinct_required_codes)
  have 4: "set (extra_codes a) =
      {c \<in> spec_required. 1 < spec_tally (rows data) (repair_number a) c}"
    unfolding e by (simp add: set_required_codes)
  have 5: "sorted_wrt (<) (unexpected_codes a)"
    unfolding u by (rule sort_distinct_strict) (simp add: distinct_Counter)
  have "set (unexpected_codes a) = {c \<in> set (map fst (Counter ?cs)). c \<notin> spec_required}"
    unfolding u by simp
  also have "\<dots> = {c \<in> set ?cs. c \<notin> spec_required}"
    by (simp only: keys_Counter)
  also have "\<dots> = {c. 0 < spec_tally (rows data) (repair_number a) c \<and> c \<notin> spec_required}"
    by (simp add: count_list_pos flip: tally)
  finally have 6: "set (unexpected_codes a) =
      {c. 0 < spec_tally (rows data) (repair_number a) c \<and> c \<notin> spec_required}" .
  have 7: "distinct (map fst (movement_codes_found a))"
    unfolding f by (rule distinct_Counter)
  have 8: "\<forall>c. map_of (movement_codes_found a) c =
            (if 0 < spec_tally (rows data) (repair_number a) c
             then Some (spec_tally (rows data) (repair_number a) c) else None)"
    unfolding f by (simp add: map_of_Counter count_list_pos flip: tally)
  have 9: "total_count a = sum_list (map snd (movement_codes_found a))"
    unfolding f t by (simp add: sum_Counter)
  have 10: "total_count a = spec_group_size (rows data) (repair_number a)"
    unfolding t by (simp add: spec_group_size_def length_group_codes)
  from 1 2 3 4 5 6 7 8 9 10 show ?thesis by blast
qed

theorem C2_witness:
  "example_anomaly \<in> set (find_anomalous_repairs example_frame) \<and>
   set (extra_codes example_anomaly) =
     {c \<in> spec_required. 1 < spec_tally (rows example_frame) (repair_number example_anomaly) c} \<and>
   extra_codes example_anomaly = [251] \<and>
   total_count example_anomaly =
     spec_group_size (rows example_frame) (repair_number example_anomaly) \<and>
   total_count example_anomaly = 4"
proof -
  have h: "example_anomaly \<in> set (find_anomalous_repairs example_frame)"
    by (simp add: example_detect)
  have v: "extra_codes example_anomaly = [251]" "total_count example_anomaly = 4"
    by (simp_all add: example_anomaly_def)
  from C2_deviation_fields [OF h] h v show ?thesis by blast
qed

text \<open>
  C6. When the table has no rows, or lacks the column \<^verbatim>\<open>'Repair Number'\<close> or the column
  \<^verbatim>\<open>'Movement Code'\<close>, the detector returns the empty list; it has no error result.
\<close>

theorem C6_invalid_input_gives_empty_result:
  assumes "rows data = [] \<or> ''Repair Number'' \<notin> set (columns data)
           \<or> ''Movement Code'' \<notin> set (columns data)"
  shows "find_anomalous_repairs data = []"
  using assms
  by (auto simp: find_anomalous_repairs_def find_anomalous_repairs_iter_def df_empty_def)

theorem C6_witness:
  "find_anomalous_repairs \<lparr> columns = [''Repair Number'', ''Movement Code''], rows = [] \<rparr> = [] \<and>
   find_anomalous_repairs \<lparr> columns = [''Movement Code''], rows = [(''R2'', 251)] \<rparr> = [] \<and>
   find_anomalous_repairs \<lparr> columns = [''Repair Number''], rows = [(''R2'', 251)] \<rparr> = [] \<and>
   find_anomalous_repairs \<lparr> columns = [''Repair Number'', ''Movement Code''],
     rows = [(''R2'', 251)] \<rparr> \<noteq> []"
proof -
  have 1: "find_anomalous_repairs \<lparr> columns = [''Repair Number'', ''Movement Code''], rows = [] \<rparr> = []"
    by (rule C6_invalid_input_gives_empty_result) simp
  have 2: "find_anomalous_repairs \<lparr> columns = [''Movement Code''], rows = [(''R2'', 251)] \<rparr> = []"
    by (rule C6_invalid_input_gives_empty_result) simp
  have 3: "find_anomalous_repairs \<lparr> columns = [''Repair Number''], rows = [(''R2'', 251)] \<rparr> = []"
    by (rule C6_invalid_input_gives_empty_result) simp
  have 4: "find_anomalous_repairs \<lparr> columns = [''Repair Number'', ''Movement Code''],
     rows = [(''R2'', 251)] \<rparr> \<noteq> []"
    by code_simp
  from 1 2 3 4 show ?thesis by blast
qed

text \<open>
  C10. For every record the detector emits: missing and extra codes are disjoint subsets of
  \<^verbatim>\<open>{161, 251, 252}\<close>, no unexpected code is in that set, every missing code counts 0
  in the dictionary of codes found, every extra code more than 1, every unexpected code at
  least 1, and the total count is at least 1.
\<close>

theorem C10_record_invariant:
  assumes "a \<in> set (find_anomalous_repairs data)"
  shows "set (missing_codes a) \<subseteq> {161, 251, 252} \<and>
         set (extra_codes a) \<subseteq> {161, 251, 252} \<and>
         set (missing_codes a) \<inter> set (extra_codes a) = {} \<and>
         set (unexpected_codes a) \<inter> {161, 251, 252} = {} \<and>
         (\<forall>c\<in>set (missing_codes a). get_count (movement_codes_found a) c = 0) \<and>
         (\<forall>c\<in>set (extra_codes a). 1 < get_count (movement_codes_found a) c) \<and>
         (\<forall>c\<in>set (unexpected_codes a). 1 \<le> get_count (movement_codes_found a) c) \<and>
         1 \<le> total_count a"
proof -
  let ?cs = "group_codes (rows data) (repair_number a)"
  note a = assms [unfolded find_anomalous_repairs_def]
  have req: "set required_codes = {161, 251, 252}"
    by (auto simp: required_codes_def)
  have f: "\<And>c. get_count (movement_codes_found a) c = count_list ?cs c"
    by (simp add: record_fields(1) [OF a] get_count_Counter)
  have m: "set (missing_codes a) = {c \<in> {161, 251, 252}. count_list ?cs c = 0}"
    by (simp add: record_fields(2) [OF a] req)
  have e: "set (extra_codes a) = {c \<in> {161, 251, 252}. 1 < count_list ?cs c}"
    by (simp add: record_fields(3) [OF a] req)
  have "set (unexpected_codes a) = {c \<in> set (map fst (Counter ?cs)). c \<notin> {161, 251, 252}}"
    by (simp add: record_fields(4) [OF a] req)
  then have u: "set (unexpected_codes a) = {c \<in> set ?cs. c \<notin> {161, 251, 252}}"
    by (simp only: keys_Counter)
  have "?cs \<noteq> []" by (rule record_fields(6) [OF a])
  then have t: "1 \<le> total_count a"
    by (simp add: record_fields(5) [OF a] Suc_le_eq)
  have 1: "set (missing_codes a) \<subseteq> {161, 251, 252}" unfolding m by blast
  have 2: "set (extra_codes a) \<subseteq> {161, 251, 252}" unfolding e by blast
  have 3: "set (missing_codes a) \<inter> set (extra_codes a) = {}" unfolding m e by auto
  have 4: "set (unexpected_codes a) \<inter> {161, 251, 252} = {}" unfolding u by blast
  have 5: "\<forall>c\<in>set (missing_codes a). get_count (movement_codes_found a) c = 0"
    unfolding m f by blast
  have 6: "\<forall>c\<in>set (extra_codes a). 1 < get_count (movement_codes_found a) c"
    unfolding e f by blast
  have 7: "\<forall>c\<in>set (unexpected_codes a). 1 \<le> get_count (movement_codes_found a) c"
    unfolding u f using count_list_pos [of ?cs] by (auto simp: Suc_le_eq)
  from 1 2 3 4 5 6 7 t show ?thesis by blast
qed

theorem C10_witness:
  "example_anomaly \<in> set (find_anomalous_repairs example_frame) \<and>
   set (extra_codes example_anomaly) \<subseteq> {161, 251, 252} \<and>
   set (missing_codes example_anomaly) \<inter> set (extra_codes example_anomaly) = {} \<and>
   extra_codes example_anomaly = [251] \<and>
   1 < get_count (movement_codes_found example_anomaly) 251 \<and>
   1 \<le> total_count example_anomaly"
proof -
  have h: "example_anomaly \<in> set (find_anomalous_repairs example_frame)"
    by (simp add: example_detect)
  have v: "extra_codes example_anomaly = [251]"
    by (simp add: example_anomaly_def)
  have m: "251 \<in> set (extra_codes example_anomaly)"
    by (simp add: v)
  note t = C10_record_invariant [OF h]
  from t have 1: "set (extra_codes example_anomaly) \<subseteq> {161, 251, 252}" by blast
  from t have 2: "set (missing_codes example_anomaly) \<inter> set (extra_codes example_anomaly) = {}"
    by blast
  from t have "\<forall>c\<in>set (extra_codes example_anomaly).
      1 < get_count (movement_codes_found example_anomaly) c" by blast
  with m have 3: "1 < get_count (movement_codes_found example_anomaly) 251" by blast
  from t have 4: "1 \<le> total_count example_anomaly" by blast
  from h 1 2 v 3 4 show ?thesis by blast
qed

section \<open>Claims about the order of the input\<close>

text \<open>
  C7. The detector is invariant under permutation of the rows of its input: two tables with
  the same columns and the same multiset of rows give the same records, field by field (the
  dictionary of codes found compared as a dictionary), both as a sequence and as a set.
\<close>

theorem C7_row_order_is_irrelevant:
  assumes "mset (rows data') = mset (rows data)" and "columns data' = columns data"
  shows "map anomaly_view (find_anomalous_repairs data') =
           map anomaly_view (find_anomalous_repairs data) \<and>
         anomaly_view ` set (find_anomalous_repairs data') =
           anomaly_view ` set (find_anomalous_repairs data)"
proof -
  have l: "map anomaly_view (find_anomalous_repairs data') =
           map anomaly_view (find_anomalous_repairs data)"
    unfolding find_anomalous_repairs_def using assms by (rule detect_view_cong)
  have s: "anomaly_view ` set (find_anomalous_repairs data') =
           anomaly_view ` set (find_anomalous_repairs data)"
    using arg_cong [OF l, of set] unfolding set_map .
  from l s show ?thesis by (rule conjI)
qed

theorem C7_witness:
  "mset (rows example_frame_reversed) = mset (rows example_frame) \<and>
   columns example_frame_reversed = columns example_frame \<and>
   map anomaly_view (find_anomalous_repairs example_frame_reversed) =
     map anomaly_view (find_anomalous_repairs example_frame) \<and>
   find_anomalous_repairs example_frame_reversed \<noteq> find_anomalous_repairs example_frame \<and>
   find_anomalous_repairs example_frame \<noteq> []"
proof -
  have m: "mset (rows example_frame_reversed) = mset (rows example_frame)"
    by (simp add: example_frame_reversed_def)
  have c: "columns example_frame_reversed = columns example_frame"
    by (simp add: example_frame_reversed_def)
  note t = C7_row_order_is_irrelevant [OF m c, THEN conjunct1]
  have d: "find_anomalous_repairs example_frame_reversed \<noteq> find_anomalous_repairs example_frame"
    by code_simp
  have n: "find_anomalous_repairs example_frame \<noteq> []"
    by (simp add: example_detect)
  from m c t d n show ?thesis by (intro conjI)
qed

text \<open>
  C8. Both operations are deterministic. The only choice the detector leaves to the Python
  runtime is the order in which the set literal of required codes is iterated, and the
  result is the same for every such order; the writer changes its argument, and a second
  run on the list the first run left behind gives the same file text, the same status
  message and the same list.
\<close>

theorem C8_detect_and_format_deterministic:
  "(mset rc = mset required_codes \<longrightarrow>
      find_anomalous_repairs_iter rc data = find_anomalous_repairs data) \<and>
   write_results_to_file io (anomalies_after (write_results_to_file io detailed_anomalies path)) path =
     write_results_to_file io detailed_anomalies path"
proof -
  have d: "mset rc = mset required_codes \<Longrightarrow>
      find_anomalous_repairs_iter rc data = find_anomalous_repairs data"
    unfolding find_anomalous_repairs_def by (rule detect_order)
  from d write_twice [of io detailed_anomalies path] show ?thesis by blast
qed

theorem C8_witness:
  "mset [161, 251, 252] = mset required_codes \<and>
   find_anomalous_repairs_iter [161, 251, 252] example_frame = find_anomalous_repairs example_frame \<and>
   find_anomalous_repairs example_frame \<noteq> [] \<and>
   write_results_to_file Io_ok
     (anomalies_after (write_results_to_file Io_ok example_anomalies ''reports/flagged.txt''))
     ''reports/flagged.txt'' =
   write_results_to_file Io_ok example_anomalies ''reports/flagged.txt'' \<and>
   anomalies_after (write_results_to_file Io_ok example_anomalies ''reports/flagged.txt'') \<noteq>
     example_anomalies"
proof -
  have m: "mset [161, 251, 252] = mset required_codes"
    by (simp add: required_codes_def)
  note t = C8_detect_and_format_deterministic
    [of "[161, 251, 252]" example_frame Io_ok example_anomalies "''reports/flagged.txt''"]
  from t m have 1: "find_anomalous_repairs_iter [161, 251, 252] example_frame =
      find_anomalous_repairs example_frame" by blast
  from t have 2: "write_results_to_file Io_ok
     (anomalies_after (write_results_to_file Io_ok example_anomalies ''reports/flagged.txt''))
     ''reports/flagged.txt'' =
   write_results_to_file Io_ok example_anomalies ''reports/flagged.txt''" by blast
  have n: "find_anomalous_repairs example_frame \<noteq> []"
    by (simp add: example_detect)
  have "example_missing \<noteq> example_unexpected"
    by (simp add: example_missing_def example_unexpected_def)
  then have 3: "anomalies_after (write_results_to_file Io_ok example_anomalies ''reports/flagged.txt'')
      \<noteq> example_anomalies"
    unfolding write_ok by (simp add: example_sorted) (simp add: example_anomalies_def)
  from m 1 n 2 3 show ?thesis by (intro conjI)
qed

section \<open>Claims about the report\<close>

text \<open>
  C3, as the specification states it, fails: for the empty list the file holds the sentinel
  line and nothing else. It has no footer: the text \<^verbatim>\<open>Total flagged\<close> does not occur in it,
  and neither does the digit 0.
\<close>

theorem C3_no_footer_counterexample:
  "file_text (write_results_to_file Io_ok [] default_output_file_path) =
     Some ''No anomalous repair numbers found based on the detailed criteria.\<newline>'' \<and>
   \<not> sublist ''Total flagged''
       ''No anomalous repair numbers found based on the detailed criteria.\<newline>'' \<and>
   CHR ''0'' \<notin> set ''No anomalous repair numbers found based on the detailed criteria.\<newline>''"
proof -
  have 1: "file_text (write_results_to_file Io_ok [] default_output_file_path) =
     Some ''No anomalous repair numbers found based on the detailed criteria.\<newline>''"
    by (simp add: write_ok write_report_empty newline_def)
  have 2: "\<not> sublist ''Total flagged''
       ''No anomalous repair numbers found based on the detailed criteria.\<newline>''"
    by code_simp
  have 3: "CHR ''0'' \<notin> set ''No anomalous repair numbers found based on the detailed criteria.\<newline>''"
    by simp
  from 1 2 3 show ?thesis by (intro conjI)
qed

text \<open>
  C3, amended. When the writer receives the empty list and the file can be written, the file
  holds exactly the sentinel line, the returned status message says that no anomalies were
  found and names the file, and the list is still empty.
\<close>

theorem C3_empty_report:
  "write_results_to_file Io_ok [] path =
     \<lparr> anomalies_after = [],
       file_text = Some (''No anomalous repair numbers found based on the detailed criteria.'' @ newline),
       status_message = ''No anomalies found. Results summary written to '' @ path \<rparr>"
  by (simp add: write_ok write_report_empty)

theorem C3_witness:
  "write_results_to_file Io_ok [] default_output_file_path =
     \<lparr> anomalies_after = [],
       file_text =
         Some ''No anomalous repair numbers found based on the detailed criteria.\<newline>'',
       status_message =
         ''No anomalies found. Results summary written to flagged_repairs_detailed.txt'' \<rparr>"
  using C3_empty_report [of default_output_file_path]
  by (simp add: default_output_file_path_def newline_def)

text \<open>
  C4. For every list of anomalies that is not empty there is a rearrangement of it whose
  repair numbers ascend in the order of strings, and the file the writer writes holds, between
  header and footer, one line per record of that rearrangement, in its order, each beginning
  with \<^verbatim>\<open>Repair: \<close> and the repair number of its record. Whatever the file system does,
  a text that reaches the file is a beginning of this report. Every other arrangement of the
  same records gives a report whose lines carry the same sequence of repair numbers.
\<close>

theorem C4_report_sorted_by_repair_number:
  assumes "detailed_anomalies \<noteq> []"
  shows "\<exists>ys t. mset ys = mset detailed_anomalies \<and>
           sorted (map repair_number ys) \<and>
           t = ''Concise Anomaly Report:'' @ newline @
               replicate 60 CHR ''='' @ newline @
               concat (map (\<lambda>a. ''Repair: '' @ repair_number a @ spec_line_rest a @ newline) ys) @
               replicate 60 CHR ''='' @ newline @
               newline @ ''Total flagged: '' @ str_nat (length ys) @ newline \<and>
           file_text (write_results_to_file Io_ok detailed_anomalies path) = Some t \<and>
           (\<forall>io u. file_text (write_results_to_file io detailed_anomalies path) = Some u \<longrightarrow>
              prefix u t) \<and>
           (\<forall>other. mset other = mset detailed_anomalies \<longrightarrow>
              (\<exists>zs. map repair_number zs = map repair_number ys \<and>
                 file_text (write_results_to_file Io_ok other path) =
                   Some (''Concise Anomaly Report:'' @ newline @
                         replicate 60 CHR ''='' @ newline @
                         concat (map (\<lambda>a. ''Repair: '' @ repair_number a @ spec_line_rest a @
                           newline) zs) @
                         replicate 60 CHR ''='' @ newline @
                         newline @ ''Total flagged: '' @ str_nat (length zs) @ newline)))"
proof -
  let ?ys = "sort_key repair_number detailed_anomalies"
  have ne: "?ys \<noteq> []" using assms by (simp add: sort_key_empty_iff)
  have f: "file_text (write_results_to_file Io_ok detailed_anomalies path) = Some (spec_report ?ys)"
    unfolding write_ok write_report_nonempty [OF ne] by simp
  have pre: "\<forall>io u. file_text (write_results_to_file io detailed_anomalies path) = Some u \<longrightarrow>
      prefix u (spec_report ?ys)"
  proof (intro allI impI)
    fix io u
    assume h: "file_text (write_results_to_file io detailed_anomalies path) = Some u"
    show "prefix u (spec_report ?ys)"
    proof (cases io)
      case Io_ok
      with h f show ?thesis by simp
    next
      case (Makedirs_raises e)
      with h show ?thesis by (simp add: write_results_to_file_def)
    next
      case (Open_raises e)
      with h show ?thesis by (simp add: write_results_to_file_def)
    next
      case (Write_raises n e)
      have "file_text (write_results_to_file (Write_raises n e) detailed_anomalies path) =
          Some (take n (spec_report ?ys))"
        unfolding write_raises write_report_nonempty [OF ne] by simp
      with h Write_raises have "u = take n (spec_report ?ys)" by simp
      then show ?thesis by (simp only: take_is_prefix)
    qed
  qed
  have o: "\<forall>other. mset other = mset detailed_anomalies \<longrightarrow>
      (\<exists>zs. map repair_number zs = map repair_number ?ys \<and>
         file_text (write_results_to_file Io_ok other path) = Some (spec_report zs))"
  proof (intro allI impI)
    fix other :: "anomaly list"
    let ?zs = "sort_key repair_number other"
    assume m: "mset other = mset detailed_anomalies"
    from m assms have "other \<noteq> []" by (metis mset_zero_iff)
    then have nz: "?zs \<noteq> []" by (simp add: sort_key_empty_iff)
    have g: "file_text (write_results_to_file Io_ok other path) = Some (spec_report ?zs)"
      unfolding write_ok write_report_nonempty [OF nz] by simp
    note s = sorted_ids_cong [OF m]
    from s g show "\<exists>zs. map repair_number zs = map repair_number ?ys \<and>
        file_text (write_results_to_file Io_ok other path) = Some (spec_report zs)"
      by (intro exI [of _ ?zs] conjI)
  qed
  have p: "mset ?ys = mset detailed_anomalies" by simp
  have s: "sorted (map repair_number ?ys)" by simp
  have t: "spec_report ?ys = spec_report ?ys" by (rule refl)
  from p s t f pre o have "\<exists>ys t. mset ys = mset detailed_anomalies \<and>
           sorted (map repair_number ys) \<and>
           t = spec_report ys \<and>
           file_text (write_results_to_file Io_ok detailed_anomalies path) = Some t \<and>
           (\<forall>io u. file_text (write_results_to_file io detailed_anomalies path) = Some u \<longrightarrow>
              prefix u t) \<and>
           (\<forall>other. mset other = mset detailed_anomalies \<longrightarrow>
              (\<exists>zs. map repair_number zs = map repair_number ys \<and>
                 file_text (write_results_to_file Io_ok other path) = Some (spec_report zs)))"
    by (intro exI [of _ ?ys] exI [of _ "spec_report ?ys"] conjI)
  then show ?thesis unfolding spec_report_repair .
qed

theorem C4_witness:
  "example_anomalies \<noteq> [] \<and>
   map repair_number example_anomalies = [''R4'', ''R3'', ''R2''] \<and>
   file_text (write_results_to_file Io_ok example_anomalies ''reports/flagged.txt'') =
     Some (''Concise Anomaly Report:\<newline>'' @
           ''============================================================\<newline>'' @
           ''Repair: R2, Missing: 252\<newline>'' @
           ''Repair: R3, Extra Count(s): 251(2)\<newline>'' @
           ''Repair: R4, Unexpected Code(s): 999(1)\<newline>'' @
           ''============================================================\<newline>'' @
           ''\<newline>Total flagged: 3\<newline>'') \<and>
   file_text (write_results_to_file (Write_raises 110 ''[Errno 28] No space left on device'')
       example_anomalies ''reports/flagged.txt'') =
     Some (''Concise Anomaly Report:\<newline>'' @
           ''============================================================\<newline>'' @
           ''Repair: R2, Missing: 252\<newline>'') \<and>
   prefix (''Concise Anomaly Report:\<newline>'' @
           ''============================================================\<newline>'' @
           ''Repair: R2, Missing: 252\<newline>'')
          (''Concise Anomaly Report:\<newline>'' @
           ''============================================================\<newline>'' @
           ''Repair: R2, Missing: 252\<newline>'' @
           ''Repair: R3, Extra Count(s): 251(2)\<newline>'' @
           ''Repair: R4, Unexpected Code(s): 999(1)\<newline>'' @
           ''============================================================\<newline>'' @
           ''\<newline>Total flagged: 3\<newline>'')"
proof -
  let ?full = "''Concise Anomaly Report:\<newline>'' @
           ''============================================================\<newline>'' @
           ''Repair: R2, Missing: 252\<newline>'' @
           ''Repair: R3, Extra Count(s): 251(2)\<newline>'' @
           ''Repair: R4, Unexpected Code(s): 999(1)\<newline>'' @
           ''============================================================\<newline>'' @
           ''\<newline>Total flagged: 3\<newline>''"
  let ?part = "''Concise Anomaly Report:\<newline>'' @
           ''============================================================\<newline>'' @
           ''Repair: R2, Missing: 252\<newline>''"
  have ne: "example_anomalies \<noteq> []"
    by (simp add: example_anomalies_def)
  have ids: "map repair_number example_anomalies = [''R4'', ''R3'', ''R2'']"
    by (simp add: example_anomalies_def example_unexpected_def example_anomaly_def
        example_missing_def)
  have f: "file_text (write_results_to_file Io_ok example_anomalies ''reports/flagged.txt'') =
      Some ?full"
    by code_simp
  have g: "file_text (write_results_to_file (Write_raises 110 ''[Errno 28] No space left on device'')
       example_anomalies ''reports/flagged.txt'') = Some ?part"
    by code_simp
  from C4_report_sorted_by_repair_number [OF ne, of "''reports/flagged.txt''"]
  obtain t where 1: "file_text (write_results_to_file Io_ok example_anomalies
        ''reports/flagged.txt'') = Some t"
    and 2: "\<forall>io u. file_text (write_results_to_file io example_anomalies ''reports/flagged.txt'') =
        Some u \<longrightarrow> prefix u t"
    by blast
  from 1 f have t: "t = ?full" by (simp only: option.inject)
  from 2 g have "prefix ?part t" by blast
  then have p: "prefix ?part ?full" unfolding t .
  from ne ids f g p show ?thesis by (intro conjI)
qed

text \<open>
  C5. For every list of anomalies that is not empty, the file holds the header line, a rule
  of exactly 60 characters \<^verbatim>\<open>=\<close>, one line per anomaly (the clause \<^verbatim>\<open>Repair: <id>\<close>, then
  \<^verbatim>\<open>Missing:\<close>, \<^verbatim>\<open>Extra Count(s):\<close> and \<^verbatim>\<open>Unexpected Code(s):\<close>, each only when its list is
  not empty, joined by a comma and a space), the same rule, an empty line and the footer
  with the number of anomalies; the status message gives that number too.
\<close>

theorem C5_report_layout:
  assumes "detailed_anomalies \<noteq> []"
  shows "file_text (write_results_to_file Io_ok detailed_anomalies path) =
           Some (''Concise Anomaly Report:'' @ newline @
                 replicate 60 CHR ''='' @ newline @
                 concat (map (\<lambda>a. spec_line a @ newline)
                   (sort_key repair_number detailed_anomalies)) @
                 replicate 60 CHR ''='' @ newline @
                 newline @ ''Total flagged: '' @ str_nat (length detailed_anomalies) @ newline) \<and>
         status_message (write_results_to_file Io_ok detailed_anomalies path) =
           ''Found '' @ str_nat (length detailed_anomalies) @
           '' anomalies. Concise report written to '' @ path"
proof -
  have ne: "sort_key repair_number detailed_anomalies \<noteq> []"
    using assms by (simp add: sort_key_empty_iff)
  show ?thesis
    by (simp add: write_ok write_report_nonempty [OF ne] spec_report_def)
qed

theorem C5_witness:
  "example_anomalies \<noteq> [] \<and>
   file_text (write_results_to_file Io_ok example_anomalies ''reports/flagged.txt'') =
     Some (''Concise Anomaly Report:\<newline>'' @
           ''============================================================\<newline>'' @
           ''Repair: R2, Missing: 252\<newline>'' @
           ''Repair: R3, Extra Count(s): 251(2)\<newline>'' @
           ''Repair: R4, Unexpected Code(s): 999(1)\<newline>'' @
           ''============================================================\<newline>'' @
           ''\<newline>Total flagged: 3\<newline>'') \<and>
   status_message (write_results_to_file Io_ok example_anomalies ''reports/flagged.txt'') =
     ''Found 3 anomalies. Concise report written to reports/flagged.txt''"
proof -
  have ne: "example_anomalies \<noteq> []"
    by (simp add: example_anomalies_def)
  note t = C5_report_layout [OF ne, of "''reports/flagged.txt''"]
  have b: "''Concise Anomaly Report:'' @ newline @
           replicate 60 CHR ''='' @ newline @
           concat (map (\<lambda>a. spec_line a @ newline) (sort_key repair_number example_anomalies)) @
           replicate 60 CHR ''='' @ newline @
           newline @ ''Total flagged: '' @ str_nat (length example_anomalies) @ newline =
           ''Concise Anomaly Report:\<newline>'' @
           ''============================================================\<newline>'' @
           ''Repair: R2, Missing: 252\<newline>'' @
           ''Repair: R3, Extra Count(s): 251(2)\<newline>'' @
           ''Repair: R4, Unexpected Code(s): 999(1)\<newline>'' @
           ''============================================================\<newline>'' @
           ''\<newline>Total flagged: 3\<newline>''"
    by code_simp
  have s: "''Found '' @ str_nat (length example_anomalies) @
           '' anomalies. Concise report written to '' @ ''reports/flagged.txt'' =
           ''Found 3 anomalies. Concise report written to reports/flagged.txt''"
    by code_simp
  from t have 1: "file_text (write_results_to_file Io_ok example_anomalies ''reports/flagged.txt'') =
     Some (''Concise Anomaly Report:\<newline>'' @
           ''============================================================\<newline>'' @
           ''Repair: R2, Missing: 252\<newline>'' @
           ''Repair: R3, Extra Count(s): 251(2)\<newline>'' @
           ''Repair: R4, Unexpected Code(s): 999(1)\<newline>'' @
           ''============================================================\<newline>'' @
           ''\<newline>Total flagged: 3\<newline>'')"
    unfolding b by (rule conjunct1)
  from t have 2: "status_message (write_results_to_file Io_ok example_anomalies ''reports/flagged.txt'') =
     ''Found 3 anomalies. Concise report written to reports/flagged.txt''"
    unfolding s by (rule conjunct2)
  from ne 1 2 show ?thesis by (intro conjI)
qed

section \<open>The effect of the writer on its argument\<close>

text \<open>
  C9, as stated, fails: the list is not in ascending order after every call. The list is
  sorted after the output directory has been created; when \<^verbatim>\<open>os.makedirs\<close> raises, the
  handler returns the error message and the caller's list is as it was.
\<close>

theorem C9_unsorted_after_failed_makedirs_counterexample:
  "anomalies_after (write_results_to_file (Makedirs_raises ''[Errno 13] Permission denied'')
      example_anomalies ''reports/flagged.txt'') = example_anomalies \<and>
   \<not> sorted (map repair_number (anomalies_after
      (write_results_to_file (Makedirs_raises ''[Errno 13] Permission denied'')
         example_anomalies ''reports/flagged.txt'')))"
proof -
  have 1: "anomalies_after (write_results_to_file (Makedirs_raises ''[Errno 13] Permission denied'')
      example_anomalies ''reports/flagged.txt'') = example_anomalies"
    by (simp add: write_results_to_file_def)
  have 2: "\<not> sorted (map repair_number example_anomalies)"
    by code_simp
  from 1 2 show ?thesis by (simp only: simp_thms)
qed

text \<open>
  C9, amended. The writer changes its argument: unless creating the output directory
  raises, the call leaves the caller's list sorted in place by repair number, a rearrangement
  of the same records in ascending order of repair number, records with the same repair
  number keeping their order, also when opening or writing the file fails afterwards. When
  creating the output directory raises, the list is unchanged, no file is written and the
  call returns the error message, which names the path and the exception.
\<close>

theorem C9_list_sorted_in_place:
  "((\<forall>e. io \<noteq> Makedirs_raises e) \<longrightarrow>
      anomalies_after (write_results_to_file io xs path) = sort_key repair_number xs \<and>
      sorted (map repair_number (anomalies_after (write_results_to_file io xs path))) \<and>
      mset (anomalies_after (write_results_to_file io xs path)) = mset xs \<and>
      (\<forall>k. filter (\<lambda>a. repair_number a = k) (anomalies_after (write_results_to_file io xs path)) =
           filter (\<lambda>a. repair_number a = k) xs)) \<and>
   (\<forall>e. anomalies_after (write_results_to_file (Makedirs_raises e) xs path) = xs \<and>
        file_text (write_results_to_file (Makedirs_raises e) xs path) = None \<and>
        status_message (write_results_to_file (Makedirs_raises e) xs path) =
          ''Error writing concise results to file '' @ path @ '': '' @ e)"
proof -
  have m: "\<forall>e. anomalies_after (write_results_to_file (Makedirs_raises e) xs path) = xs \<and>
        file_text (write_results_to_file (Makedirs_raises e) xs path) = None \<and>
        status_message (write_results_to_file (Makedirs_raises e) xs path) =
          ''Error writing concise results to file '' @ path @ '': '' @ e"
    by (simp add: write_results_to_file_def error_message_def)
  have s: "(\<forall>e. io \<noteq> Makedirs_raises e) \<Longrightarrow>
      anomalies_after (write_results_to_file io xs path) = sort_key repair_number xs"
    by (cases io) (simp_all add: write_results_to_file_def Let_def split: prod.splits)
  show ?thesis
    by (simp add: m s sort_key_stable)
qed

theorem C9_witness:
  "anomalies_after (write_results_to_file Io_ok example_anomalies ''reports/flagged.txt'') =
     [example_missing, example_anomaly, example_unexpected] \<and>
   anomalies_after (write_results_to_file (Open_raises ''[Errno 13] Permission denied'')
     example_anomalies ''reports/flagged.txt'') =
     [example_missing, example_anomaly, example_unexpected] \<and>
   example_anomalies = [example_unexpected, example_anomaly, example_missing] \<and>
   sorted (map repair_number
     (anomalies_after (write_results_to_file Io_ok example_anomalies ''reports/flagged.txt''))) \<and>
   anomalies_after (write_results_to_file (Makedirs_raises ''[Errno 13] Permission denied'')
     example_anomalies ''reports/flagged.txt'') = example_anomalies \<and>
   file_text (write_results_to_file (Makedirs_raises ''[Errno 13] Permission denied'')
     example_anomalies ''reports/flagged.txt'') = None \<and>
   status_message (write_results_to_file (Makedirs_raises ''[Errno 13] Permission denied'')
     example_anomalies ''reports/flagged.txt'') =
     ''Error writing concise results to file reports/flagged.txt: [Errno 13] Permission denied''"
proof -
  have h1: "\<forall>e. Io_ok \<noteq> Makedirs_raises e" by simp
  have h2: "\<forall>e. Open_raises ''[Errno 13] Permission denied'' \<noteq> Makedirs_raises e" by simp
  note t1 = C9_list_sorted_in_place [of Io_ok example_anomalies "''reports/flagged.txt''"]
  note t2 = C9_list_sorted_in_place [of "Open_raises ''[Errno 13] Permission denied''"
      example_anomalies "''reports/flagged.txt''"]
  from t1 h1 have "anomalies_after (write_results_to_file Io_ok example_anomalies
      ''reports/flagged.txt'') = sort_key repair_number example_anomalies" by blast
  then have 1: "anomalies_after (write_results_to_file Io_ok example_anomalies
      ''reports/flagged.txt'') = [example_missing, example_anomaly, example_unexpected]"
    by (simp only: example_sorted)
  from t2 h2 have "anomalies_after (write_results_to_file
      (Open_raises ''[Errno 13] Permission denied'') example_anomalies ''reports/flagged.txt'') =
      sort_key repair_number example_anomalies" by blast
  then have 2: "anomalies_after (write_results_to_file
      (Open_raises ''[Errno 13] Permission denied'') example_anomalies ''reports/flagged.txt'') =
      [example_missing, example_anomaly, example_unexpected]"
    by (simp only: example_sorted)
  from t1 h1 have 3: "sorted (map repair_number
     (anomalies_after (write_results_to_file Io_ok example_anomalies ''reports/flagged.txt'')))"
    by blast
  from t1 have m: "anomalies_after (write_results_to_file
        (Makedirs_raises ''[Errno 13] Permission denied'') example_anomalies ''reports/flagged.txt'') =
        example_anomalies \<and>
      file_text (write_results_to_file
        (Makedirs_raises ''[Errno 13] Permission denied'') example_anomalies ''reports/flagged.txt'') =
        None \<and>
      status_message (write_results_to_file
        (Makedirs_raises ''[Errno 13] Permission denied'') example_anomalies ''reports/flagged.txt'') =
        ''Error writing concise results to file '' @ ''reports/flagged.txt'' @ '': '' @
        ''[Errno 13] Permission denied''" by blast
  have e: "''Error writing concise results to file '' @ ''reports/flagged.txt'' @ '': '' @
        ''[Errno 13] Permission denied'' =
        ''Error writing concise results to file reports/flagged.txt: [Errno 13] Permission denied''"
    by simp
  note m4 = m [THEN conjunct1]
  note m5 = m [THEN conjunct2, THEN conjunct1]
  note m6 = m [THEN conjunct2, THEN conjunct2, unfolded e]
  from 1 2 example_anomalies_def 3 m4 m5 m6 show ?thesis by (intro conjI)
qed

end
